theory Spec2Isabelle
  imports Complex_Main "HOL-Library.Log_Nat"
begin

section \<open>The truck travel-time estimator of the route planner\<close>

text \<open>
  The estimator is the function \<open>calculateTruckDuration\<close> of \<open>src/App.tsx\<close>. It is
  pure arithmetic on one number, and it is modelled twice.

  The first model, \<open>calculateTruckDuration\<close>, computes with exact rationals: \<open>1.2\<close> is
  \<open>6/5\<close>, \<open>0.2\<close> is \<open>1/5\<close>, \<open>4.5\<close> is \<open>9/2\<close>. It is the arithmetic the
  description of the estimator is written in, and the order, sign and threshold
  properties are proved of it.

  The second model, \<open>calculateTruckDuration64\<close>, computes as the program does, in
  binary64: every division, product and sum is rounded to the nearest double, a tie going
  to the even significand, with gradual underflow, and a result too large for a double
  is not finite. The statements that give the value of the estimate for every distance
  are proved of this model, because the two models differ at some distances: at 61.25 km
  the program returns 103 minutes where exact arithmetic gives the tie 103.5 and 104.

  The two results are whole numbers in the program (the values of \<open>Math.round\<close> and
  \<open>Math.floor\<close>) and are integers here. The values \<open>NaN\<close> and \<open>Infinity\<close> are not
  distances; a distance is a finite number.
\<close>

subsection \<open>Library functions\<close>

text \<open>\<open>Math.round\<close>: the nearest integer, a tie going up.\<close>

definition Math_round :: "rat \<Rightarrow> int" where
  "Math_round x = \<lfloor>x + 1 / 2\<rfloor>"

text \<open>\<open>Math.floor\<close>: the greatest integer not above the argument.\<close>

definition Math_floor :: "rat \<Rightarrow> int" where
  "Math_floor x = \<lfloor>x\<rfloor>"

subsection \<open>Data\<close>

text \<open>The object the estimator returns.\<close>

record estimate =
  duration :: int
  restStops :: int

text \<open>The three object literals of the long-distance part.\<close>

record speeds =
  motorway :: rat
  trunk :: rat
  primary :: rat
  secondary :: rat
  residential :: rat

record conditions =
  peakHours :: rat
  normal :: rat
  nighttime :: rat

record factors =
  loadingUnloading :: rat
  cityAccess :: rat
  weightStations :: rat

definition truckSpeeds :: speeds where
  "truckSpeeds =
    \<lparr>motorway = 80, trunk = 60, primary = 50, secondary = 40, residential = 30\<rparr>"

definition timeFactors :: conditions where
  "timeFactors = \<lparr>peakHours = 7 / 5, normal = 6 / 5, nighttime = 11 / 10\<rparr>"

definition truckFactors :: "rat \<Rightarrow> factors" where
  "truckFactors distance =
    \<lparr>loadingUnloading = (if distance > 50 then 30 else 20),
     cityAccess = (if distance > 30 then 20 else 10),
     weightStations = 15\<rparr>"

subsection \<open>The estimator\<close>

text \<open>
  The speed chosen from the distance: \<open>let baseSpeed = truckSpeeds.primary\<close>, replaced
  above 100 km by the motorway speed and otherwise above 50 km by the trunk speed.
\<close>

definition baseSpeed :: "rat \<Rightarrow> rat" where
  "baseSpeed distance =
    (if distance > 100 then motorway truckSpeeds
     else if distance > 50 then trunk truckSpeeds
     else primary truckSpeeds)"

text \<open>
  The function itself. The variable \<open>duration\<close> of the program is assigned five times;
  the successive values are \<open>duration0\<close> to \<open>duration5\<close>. The second argument is never
  read.
\<close>

definition calculateTruckDuration :: "rat \<Rightarrow> string \<Rightarrow> estimate" where
  "calculateTruckDuration distance routeType =
    (if distance \<le> 15 then
       (let baseMinutes = (distance / 25) * 60;
            loadUnloadTime = 15;
            trafficBuffer = baseMinutes * (1 / 5)
        in \<lparr>duration = Math_round (baseMinutes + loadUnloadTime + trafficBuffer),
            restStops = 0\<rparr>)
     else
       (let drivingHours = distance / baseSpeed distance;
            stops = Math_floor (drivingHours / (9 / 2));
            restTime = of_int stops * 45;
            duration0 = (distance / baseSpeed distance) * 60;
            duration1 = duration0 * normal timeFactors;
            duration2 = duration1 + restTime;
            duration3 = duration2 + loadingUnloading (truckFactors distance);
            duration4 = (if distance < 50
                         then duration3 + cityAccess (truckFactors distance)
                         else duration3);
            duration5 = (if distance > 100
                         then duration4 + weightStations (truckFactors distance)
                         else duration4)
        in \<lparr>duration = Math_round duration5, restStops = stops\<rparr>))"

subsection \<open>The parts of the long-distance total\<close>

text \<open>
  What the statement \<open>if (distance < 50) duration += truckFactors.cityAccess\<close> adds to
  the total, and what \<open>if (distance > 100) duration += truckFactors.weightStations\<close>
  adds.
\<close>

definition cityAccessAdded :: "rat \<Rightarrow> rat" where
  "cityAccessAdded distance =
    (if distance < 50 then cityAccess (truckFactors distance) else 0)"

definition weightStationsAdded :: "rat \<Rightarrow> rat" where
  "weightStationsAdded distance =
    (if distance > 100 then weightStations (truckFactors distance) else 0)"

text \<open>The number of rest stops of the long-distance part, and the driving minutes.\<close>

definition restStopCount :: "rat \<Rightarrow> int" where
  "restStopCount distance = Math_floor ((distance / baseSpeed distance) / (9 / 2))"

definition drivingMinutes :: "rat \<Rightarrow> rat" where
  "drivingMinutes distance = (distance / baseSpeed distance) * 60 * normal timeFactors"

subsection \<open>Tiers\<close>


section \<open>Binary64 arithmetic\<close>

text \<open>
  A finite double is a rational \<open>m * 2 ^ q\<close> with \<open>\<bar>m\<bar> < 2 ^ 53\<close> and
  \<open>- 1074 \<le> q\<close>, below \<open>2 ^ 1024\<close> in absolute value. The operations of the program
  are the exact operations followed by rounding.
\<close>

text \<open>Powers of two with an integer exponent.\<close>

definition pow2 :: "int \<Rightarrow> rat" where
  "pow2 e = (if 0 \<le> e then 2 ^ nat e else 1 / 2 ^ nat (- e))"

text \<open>The binary exponent of a positive number: \<open>2 ^ expo x \<le> x < 2 ^ (expo x + 1)\<close>.\<close>

definition expo :: "rat \<Rightarrow> int" where
  "expo x =
    (if 1 \<le> x then bitlen \<lfloor>x\<rfloor> - 1
     else (let f = bitlen \<lfloor>1 / x\<rfloor> - 1 in if 1 / x = pow2 f then - f else - f - 1))"

text \<open>The nearest integer, a tie going to the even one.\<close>

definition roundHalfEven :: "rat \<Rightarrow> int" where
  "roundHalfEven r =
    (let n = \<lfloor>r\<rfloor>; f = r - of_int n
     in if f < 1 / 2 then n else if 1 / 2 < f then n + 1 else if even n then n else n + 1)"

text \<open>
  The unit in the last place of a positive number: 53 significant bits, and never below
  \<open>2 ^ - 1074\<close>, the spacing of the subnormal numbers.
\<close>

definition ulp :: "rat \<Rightarrow> rat" where
  "ulp x = pow2 (max (expo x) (- 1022) - 52)"

text \<open>Rounding to the nearest number on the grid of doubles, without a bound above.\<close>

definition fl :: "rat \<Rightarrow> rat" where
  "fl x =
    (if x = 0 then 0
     else if 0 < x then of_int (roundHalfEven (x / ulp x)) * ulp x
     else - (of_int (roundHalfEven (- x / ulp (- x))) * ulp (- x)))"

text \<open>
  A number of the program that is not an input: \<open>None\<close> stands for the values that
  are not finite. The estimator divides by constants only and multiplies by positive
  constants only, so no operation of it makes a finite value out of one that is not.
\<close>

type_synonym number = "rat option"

text \<open>
  The result of an operation whose exact value is \<open>x\<close>: rounding reaches \<open>2 ^ 1024\<close>
  exactly when binary64 overflows.
\<close>

definition round64 :: "rat \<Rightarrow> number" where
  "round64 x = (let y = fl x in if \<bar>y\<bar> < 2 ^ 1024 then Some y else None)"

text \<open>The finite doubles.\<close>

definition is_double :: "rat \<Rightarrow> bool" where
  "is_double x = (fl x = x \<and> \<bar>x\<bar> < 2 ^ 1024)"

text \<open>Addition, multiplication, and division by a constant.\<close>

definition num_add :: "number \<Rightarrow> number \<Rightarrow> number" where
  "num_add a b = (case a of None \<Rightarrow> None | Some x \<Rightarrow> (case b of None \<Rightarrow> None | Some y \<Rightarrow> round64 (x + y)))"

definition num_mul :: "number \<Rightarrow> number \<Rightarrow> number" where
  "num_mul a b = (case a of None \<Rightarrow> None | Some x \<Rightarrow> (case b of None \<Rightarrow> None | Some y \<Rightarrow> round64 (x * y)))"

definition num_div :: "number \<Rightarrow> rat \<Rightarrow> number" where
  "num_div a c = (case a of None \<Rightarrow> None | Some x \<Rightarrow> round64 (x / c))"

section \<open>The estimator in binary64\<close>

text \<open>The object the estimator returns; each field may be a value that is not finite.\<close>

record estimate64 =
  duration64 :: "int option"
  restStops64 :: "int option"

text \<open>The literals \<open>1.4\<close>, \<open>1.2\<close> and \<open>1.1\<close> are the doubles nearest to them.\<close>

definition timeFactors64 :: conditions where
  "timeFactors64 = \<lparr>peakHours = fl (7 / 5), normal = fl (6 / 5), nighttime = fl (11 / 10)\<rparr>"

text \<open>
  The function, statement by statement as in the first model. The speeds and the delays are
  whole numbers and the comparisons are made on the input, so \<open>baseSpeed\<close> and
  \<open>truckFactors\<close> are those of the first model. The literal \<open>0.2\<close> is \<open>fl (1 / 5)\<close>.
\<close>

definition calculateTruckDuration64 :: "rat \<Rightarrow> string \<Rightarrow> estimate64" where
  "calculateTruckDuration64 distance routeType =
    (if distance \<le> 15 then
       (let baseMinutes = num_mul (num_div (Some distance) 25) (Some 60);
            loadUnloadTime = Some 15;
            trafficBuffer = num_mul baseMinutes (Some (fl (1 / 5)))
        in \<lparr>duration64 = map_option Math_round
              (num_add (num_add baseMinutes loadUnloadTime) trafficBuffer),
            restStops64 = Some 0\<rparr>)
     else
       (let drivingHours = num_div (Some distance) (baseSpeed distance);
            stops = map_option Math_floor (num_div drivingHours (9 / 2));
            restTime = num_mul (map_option of_int stops) (Some 45);
            duration0 = num_mul (num_div (Some distance) (baseSpeed distance)) (Some 60);
            duration1 = num_mul duration0 (Some (normal timeFactors64));
            duration2 = num_add duration1 restTime;
            duration3 = num_add duration2 (Some (loadingUnloading (truckFactors distance)));
            duration4 = (if distance < 50
                         then num_add duration3 (Some (cityAccess (truckFactors distance)))
                         else duration3);
            duration5 = (if distance > 100
                         then num_add duration4 (Some (weightStations (truckFactors distance)))
                         else duration4)
        in \<lparr>duration64 = map_option Math_round duration5, restStops64 = stops\<rparr>))"

subsection \<open>The parts of the computation\<close>

text \<open>\<open>baseMinutes\<close> of the short-distance part.\<close>

definition baseMinutes64 :: "rat \<Rightarrow> number" where
  "baseMinutes64 distance = num_mul (num_div (Some distance) 25) (Some 60)"

text \<open>\<open>restStops\<close> of the long-distance part.\<close>

definition restStopCount64 :: "rat \<Rightarrow> int option" where
  "restStopCount64 distance =
    map_option Math_floor (num_div (num_div (Some distance) (baseSpeed distance)) (9 / 2))"

text \<open>
  The variable \<open>duration\<close> after the loading delay is added, and at the end, as
  functions of the rest time that is added to it.
\<close>

definition loadedTotal64 :: "rat \<Rightarrow> number \<Rightarrow> number" where
  "loadedTotal64 distance restTime =
    (let duration0 = num_mul (num_div (Some distance) (baseSpeed distance)) (Some 60);
         duration1 = num_mul duration0 (Some (normal timeFactors64));
         duration2 = num_add duration1 restTime;
         duration3 = num_add duration2 (Some (loadingUnloading (truckFactors distance)))
     in duration3)"

definition tripTotal64 :: "rat \<Rightarrow> number \<Rightarrow> number" where
  "tripTotal64 distance restTime =
    (let duration3 = loadedTotal64 distance restTime;
         duration4 = (if distance < 50
                      then num_add duration3 (Some (cityAccess (truckFactors distance)))
                      else duration3);
         duration5 = (if distance > 100
                      then num_add duration4 (Some (weightStations (truckFactors distance)))
                      else duration4)
     in duration5)"

section \<open>Auxiliary facts of the exact model\<close>










lemma hint_ignored: "calculateTruckDuration d h1 = calculateTruckDuration d h2"
  by (simp add: calculateTruckDuration_def)



section \<open>Facts about binary64 rounding\<close>

subsection \<open>Powers of two and exponents\<close>

lemma pow2_powi: "pow2 e = 2 powi e"
  by (simp add: pow2_def power_int_def inverse_eq_divide power_one_over)

lemma pow2_pos: "0 < pow2 e"
  by (simp add: pow2_powi)

lemma pow2_add: "pow2 (a + b) = pow2 a * pow2 b"
  by (simp add: pow2_powi power_int_add)

lemma pow2_0: "pow2 0 = 1"
  by (simp add: pow2_def)

lemma pow2_Suc: "pow2 (e + 1) = 2 * pow2 e"
proof -
  have "pow2 1 = 2" by (simp add: pow2_def)
  then show ?thesis by (simp add: pow2_add)
qed

lemma pow2_nat: "0 \<le> e \<Longrightarrow> pow2 e = 2 ^ nat e"
  by (simp add: pow2_def)

lemma pow2_mono: "a \<le> b \<Longrightarrow> pow2 a \<le> pow2 b"
  by (simp add: pow2_powi power_int_increasing)

lemma pow2_strict_mono: "a < b \<Longrightarrow> pow2 a < pow2 b"
  by (simp add: pow2_powi power_int_strict_increasing)

lemma pow2_le_iff: "pow2 a \<le> pow2 b \<longleftrightarrow> a \<le> b"
  using pow2_mono [of a b] pow2_strict_mono [of b a] by (cases "a \<le> b") auto

lemma pow2_less_iff: "pow2 a < pow2 b \<longleftrightarrow> a < b"
  using pow2_mono [of b a] pow2_strict_mono [of a b] by (cases "a < b") auto

lemma pow2_diff: "pow2 (a - b) = pow2 a / pow2 b"
proof -
  have "pow2 a = pow2 (a - b) * pow2 b" by (simp flip: pow2_add)
  then show ?thesis using pow2_pos [of b] by (simp add: field_simps)
qed

lemma pow2_of_int: "0 \<le> e \<Longrightarrow> pow2 e = of_int (2 ^ nat e)"
  by (simp add: pow2_def)

lemma expo_ge1:
  assumes "1 \<le> x"
  shows "pow2 (expo x) \<le> x \<and> x < pow2 (expo x + 1)"
proof -
  let ?n = "\<lfloor>x\<rfloor>"
  have n: "0 < ?n" using assms by simp
  have e: "expo x = bitlen ?n - 1" using assms by (simp add: expo_def)
  have b1: "1 \<le> bitlen ?n" using n bitlen_eq_zero_iff [of ?n] bitlen_nonneg [of ?n] by linarith
  from bitlen_bounds [OF n]
  have lo: "(2::int) ^ nat (bitlen ?n - 1) \<le> ?n" and hi: "?n < 2 ^ nat (bitlen ?n)" by simp_all
  have "(of_int ((2::int) ^ nat (bitlen ?n - 1)) :: rat) \<le> of_int ?n"
    using lo by (simp only: of_int_le_iff)
  also have "\<dots> \<le> x" by simp
  finally have l: "pow2 (expo x) \<le> x" using b1 by (simp add: e pow2_def)
  have "?n + 1 \<le> 2 ^ nat (bitlen ?n)" using hi by simp
  then have "(of_int (?n + 1) :: rat) \<le> of_int (2 ^ nat (bitlen ?n))"
    by (simp only: of_int_le_iff)
  moreover have "x < of_int (?n + 1)" by linarith
  ultimately have "x < of_int ((2::int) ^ nat (bitlen ?n))" by linarith
  then have "x < pow2 (expo x + 1)" using b1 by (simp add: e pow2_def)
  with l show ?thesis by simp
qed

lemma expo_bounds:
  assumes "0 < x"
  shows "pow2 (expo x) \<le> x \<and> x < pow2 (expo x + 1)"
proof (cases "1 \<le> x")
  case True
  then show ?thesis by (rule expo_ge1)
next
  case False
  define y where "y = 1 / x"
  have y1: "1 \<le> y" using assms False by (simp add: y_def)
  define f where "f = bitlen \<lfloor>y\<rfloor> - 1"
  have fy: "f = expo y" using y1 by (simp add: f_def expo_def)
  have bnd: "pow2 f \<le> y \<and> y < pow2 (f + 1)" using expo_ge1 [OF y1] by (simp add: fy)
  have xy: "x = 1 / y" using assms by (simp add: y_def)
  have ex: "expo x = (if y = pow2 f then - f else - f - 1)"
    using False by (simp add: expo_def y_def f_def Let_def)
  have py: "0 < y" using y1 by simp
  show ?thesis
  proof (cases "y = pow2 f")
    case True
    then have e: "expo x = - f" by (simp add: ex)
    have x: "x = pow2 (- f)" using True xy pow2_diff [of 0 f] by (simp add: pow2_0)
    have "pow2 (- f) < pow2 (- f + 1)" by (simp add: pow2_less_iff)
    then have "pow2 (- f) \<le> x \<and> x < pow2 (- f + 1)" using x by simp
    then show ?thesis by (simp only: e)
  next
    case False
    then have e: "expo x = - f - 1" by (simp add: ex)
    have lt: "pow2 f < y" using False bnd by simp
    have "1 / y < 1 / pow2 f" using lt pow2_pos [of f] by (simp add: frac_less2)
    then have u: "x < pow2 (- f)" using xy pow2_diff [of 0 f] by (simp add: pow2_0)
    have "1 / pow2 (f + 1) < 1 / y" using bnd py pow2_pos [of "f + 1"] by (simp add: frac_less2)
    then have l: "pow2 (- f - 1) \<le> x" using xy pow2_diff [of 0 "f + 1"] by (simp add: pow2_0)
    show ?thesis using l u by (simp add: e)
  qed
qed

lemma expo_unique:
  assumes "pow2 e \<le> x" "x < pow2 (e + 1)"
  shows "expo x = e"
proof -
  have px: "0 < x" using assms(1) pow2_pos [of e] by linarith
  from expo_bounds [OF px] have b: "pow2 (expo x) \<le> x" "x < pow2 (expo x + 1)" by simp_all
  have "pow2 e < pow2 (expo x + 1)" using assms(1) b(2) by linarith
  then have 1: "e < expo x + 1" by (simp only: pow2_less_iff)
  have "pow2 (expo x) < pow2 (e + 1)" using assms(2) b(1) by linarith
  then have 2: "expo x < e + 1" by (simp only: pow2_less_iff)
  show ?thesis using 1 2 by simp
qed

lemma expo_less: "0 < x \<Longrightarrow> x < pow2 k \<Longrightarrow> expo x < k"
proof -
  assume a: "0 < x" "x < pow2 k"
  have "pow2 (expo x) < pow2 k" using expo_bounds [OF a(1)] a(2) by linarith
  then show ?thesis by (simp only: pow2_less_iff)
qed

lemma expo_ge: "pow2 k \<le> x \<Longrightarrow> k \<le> expo x"
proof -
  assume a: "pow2 k \<le> x"
  have px: "0 < x" using a pow2_pos [of k] by linarith
  have "pow2 k < pow2 (expo x + 1)" using expo_bounds [OF px] a by linarith
  then have "k < expo x + 1" by (simp only: pow2_less_iff)
  then show ?thesis by simp
qed

lemma expo_mono: "0 < x \<Longrightarrow> x \<le> y \<Longrightarrow> expo x \<le> expo y"
proof -
  assume a: "0 < x" "x \<le> y"
  have "pow2 (expo x) \<le> y" using expo_bounds [OF a(1)] a(2) by linarith
  then show ?thesis by (rule expo_ge)
qed

subsection \<open>Rounding\<close>

lemma roundHalfEven_of_int: "roundHalfEven (of_int n) = n"
  by (simp add: roundHalfEven_def)

lemma roundHalfEven_floor: "\<lfloor>r\<rfloor> \<le> roundHalfEven r \<and> roundHalfEven r \<le> \<lfloor>r\<rfloor> + 1"
  by (simp add: roundHalfEven_def Let_def)

lemma roundHalfEven_ge: "of_int n \<le> r \<Longrightarrow> n \<le> roundHalfEven r"
proof -
  assume "of_int n \<le> r"
  then have "n \<le> \<lfloor>r\<rfloor>" by (simp add: le_floor_iff)
  then show ?thesis using roundHalfEven_floor [of r] by linarith
qed

lemma roundHalfEven_le: "r \<le> of_int n \<Longrightarrow> roundHalfEven r \<le> n"
proof (cases "r = of_int n")
  case True
  then show ?thesis by (simp add: roundHalfEven_of_int)
next
  case False
  assume "r \<le> of_int n"
  then have "r < of_int n" using False by simp
  then have "\<lfloor>r\<rfloor> < n" by (simp add: floor_less_iff)
  then show ?thesis using roundHalfEven_floor [of r] by linarith
qed

lemma roundHalfEven_err: "\<bar>of_int (roundHalfEven r) - r\<bar> \<le> 1 / 2"
proof -
  have "of_int \<lfloor>r\<rfloor> \<le> r" "r < of_int \<lfloor>r\<rfloor> + 1" by linarith+
  then show ?thesis
    by (auto simp add: roundHalfEven_def Let_def abs_le_iff)
qed

lemma roundHalfEven_mono:
  assumes "r \<le> s"
  shows "roundHalfEven r \<le> roundHalfEven s"
proof (cases "\<lfloor>r\<rfloor> = \<lfloor>s\<rfloor>")
  case True
  have "r - of_int \<lfloor>s\<rfloor> \<le> s - of_int \<lfloor>s\<rfloor>" using assms by simp
  then show ?thesis
    by (auto simp add: roundHalfEven_def Let_def True)
next
  case False
  have "\<lfloor>r\<rfloor> \<le> \<lfloor>s\<rfloor>" using assms by (rule floor_mono)
  then have "\<lfloor>r\<rfloor> + 1 \<le> \<lfloor>s\<rfloor>" using False by simp
  then show ?thesis using roundHalfEven_floor [of r] roundHalfEven_floor [of s] by linarith
qed

text \<open>The exponent of the unit in the last place.\<close>

lemma ulp_pos: "0 < ulp x"
  by (simp add: ulp_def pow2_pos)

lemma fl_pos_eq: "0 < x \<Longrightarrow> fl x = of_int (roundHalfEven (x / ulp x)) * ulp x"
  by (simp add: fl_def)

lemma fl_0: "fl 0 = 0"
  by (simp add: fl_def)

lemma fl_minus: "fl (- x) = - fl x"
  by (simp add: fl_def)

lemma fl_err: "\<bar>fl x - x\<bar> \<le> ulp \<bar>x\<bar> / 2"
proof -
  have pos: "\<bar>fl y - y\<bar> \<le> ulp y / 2" if "0 < y" for y
  proof -
    have "\<bar>of_int (roundHalfEven (y / ulp y)) - y / ulp y\<bar> * ulp y \<le> 1 / 2 * ulp y"
      using roundHalfEven_err [of "y / ulp y"] ulp_pos [of y] by (simp only: mult_right_mono less_imp_le)
    moreover have "\<bar>of_int (roundHalfEven (y / ulp y)) - y / ulp y\<bar> * ulp y
        = \<bar>of_int (roundHalfEven (y / ulp y)) * ulp y - y\<bar>"
    proof -
      have "of_int (roundHalfEven (y / ulp y)) * ulp y - y
          = (of_int (roundHalfEven (y / ulp y)) - y / ulp y) * ulp y"
        using ulp_pos [of y] by (simp add: left_diff_distrib)
      then show ?thesis using ulp_pos [of y] by (simp only: abs_mult abs_of_pos)
    qed
    ultimately show ?thesis using that by (simp add: fl_pos_eq)
  qed
  consider "x = 0" | "0 < x" | "x < 0" by linarith
  then show ?thesis
  proof cases
    case 1
    then show ?thesis using ulp_pos [of 0] by (simp add: fl_0)
  next
    case 2
    then show ?thesis using pos [of x] by simp
  next
    case 3
    then have "0 < - x" by simp
    from pos [OF this] have "\<bar>- fl x + x\<bar> \<le> ulp (- x) / 2" by (simp add: fl_minus)
    moreover have "\<bar>- fl x + x\<bar> = \<bar>fl x - x\<bar>" by (simp add: abs_minus_commute)
    moreover have "\<bar>x\<bar> = - x" using 3 by simp
    ultimately show ?thesis by simp
  qed
qed

text \<open>Numbers on the grid of their own binade are not changed.\<close>

lemma fl_grid:
  assumes k: "0 < k" "k < 2 ^ 53" and j: "- 1074 \<le> j"
  shows "fl (of_int k * pow2 j) = of_int k * pow2 j"
proof -
  define x where "x = of_int k * pow2 j"
  have px: "0 < x" using k(1) pow2_pos [of j] by (simp add: x_def)
  define q where "q = max (expo x) (- 1022) - 52"
  have u: "ulp x = pow2 q" by (simp add: ulp_def q_def)
  have "x < 2 ^ 53 * pow2 j"
  proof -
    have "(of_int k :: rat) < of_int (2 ^ 53)" using k(2) by (simp only: of_int_less_iff)
    then show ?thesis using pow2_pos [of j] by (simp add: x_def)
  qed
  also have "\<dots> = pow2 (53 + j)"
  proof -
    have "pow2 53 = 2 ^ 53" by (simp add: pow2_def)
    then show ?thesis by (simp add: pow2_add)
  qed
  finally have "expo x < 53 + j" using px by (rule expo_less [rotated])
  then have qj: "q \<le> j" using j by (simp add: q_def)
  have "pow2 j = pow2 (j - q) * pow2 q" by (simp flip: pow2_add)
  also have "pow2 (j - q) = of_int (2 ^ nat (j - q))" using qj by (simp add: pow2_of_int)
  finally have pj: "pow2 j = of_int (2 ^ nat (j - q)) * pow2 q" .
  have xq: "x = of_int (k * 2 ^ nat (j - q)) * pow2 q" by (simp add: x_def pj)
  have "x / pow2 q = of_int (k * 2 ^ nat (j - q))"
    using pow2_pos [of q] by (simp add: xq)
  then have "x / ulp x = of_int (k * 2 ^ nat (j - q))" by (simp only: u)
  then have "roundHalfEven (x / ulp x) = k * 2 ^ nat (j - q)"
    by (simp only: roundHalfEven_of_int)
  then have "fl x = of_int (k * 2 ^ nat (j - q)) * ulp x" using px by (simp add: fl_pos_eq)
  also have "\<dots> = of_int k * (pow2 (j - q) * pow2 q)"
    using qj by (simp add: u pow2_of_int)
  also have "\<dots> = x" by (simp add: x_def flip: pow2_add)
  finally show ?thesis by (simp add: x_def)
qed

lemma fl_of_int:
  assumes "0 \<le> k" "k < 2 ^ 53"
  shows "fl (of_int k) = of_int k"
proof (cases "k = 0")
  case True
  then show ?thesis by (simp add: fl_0)
next
  case False
  then have "0 < k" using assms(1) by simp
  from fl_grid [OF this assms(2), of 0] show ?thesis by (simp add: pow2_0)
qed

lemma fl_pow2:
  assumes "- 1074 \<le> j"
  shows "fl (pow2 j) = pow2 j"
  using fl_grid [of 1 j] assms by simp

text \<open>Rounding is monotone.\<close>

lemma fl_lower:
  assumes "0 < x"
  shows "pow2 (max (expo x) (- 1022)) \<le> x \<Longrightarrow> pow2 (max (expo x) (- 1022)) \<le> fl x"
proof -
  define e where "e = max (expo x) (- 1022)"
  assume a: "pow2 (max (expo x) (- 1022)) \<le> x"
  have u: "ulp x = pow2 (e - 52)" by (simp add: ulp_def e_def)
  have "e = 52 + (e - 52)" by simp
  then have "pow2 e = pow2 52 * pow2 (e - 52)" by (simp only: pow2_add [symmetric])
  also have "pow2 52 = of_int (2 ^ 52)" by (simp add: pow2_def)
  finally have pe: "pow2 e = of_int (2 ^ 52) * pow2 (e - 52)" .
  have "of_int (2 ^ 52) \<le> x / ulp x"
    using a pow2_pos [of "e - 52"] by (simp add: u pe e_def [symmetric] pos_le_divide_eq)
  then have "2 ^ 52 \<le> roundHalfEven (x / ulp x)" by (rule roundHalfEven_ge)
  then have "(of_int (2 ^ 52) :: rat) \<le> of_int (roundHalfEven (x / ulp x))"
    by (simp only: of_int_le_iff)
  then have "of_int (2 ^ 52) * ulp x \<le> of_int (roundHalfEven (x / ulp x)) * ulp x"
    using ulp_pos [of x] by (simp only: mult_right_mono less_imp_le)
  then show ?thesis using assms by (simp add: fl_pos_eq u pe e_def [symmetric])
qed

lemma fl_upper:
  assumes "0 < x"
  shows "fl x \<le> pow2 (max (expo x) (- 1022) + 1)"
proof -
  define e where "e = max (expo x) (- 1022)"
  have u: "ulp x = pow2 (e - 52)" by (simp add: ulp_def e_def)
  have "e + 1 = 53 + (e - 52)" by simp
  then have "pow2 (e + 1) = pow2 53 * pow2 (e - 52)" by (simp only: pow2_add)
  also have "pow2 53 = of_int (2 ^ 53)" by (simp add: pow2_def)
  finally have pe: "pow2 (e + 1) = of_int (2 ^ 53) * pow2 (e - 52)" .
  have "x < pow2 (expo x + 1)" using expo_bounds [OF assms] by simp
  also have "\<dots> \<le> pow2 (e + 1)" by (simp add: pow2_le_iff e_def)
  finally have "x / ulp x \<le> of_int (2 ^ 53)"
    using pow2_pos [of "e - 52"] by (simp add: u pe pos_divide_le_eq)
  then have "roundHalfEven (x / ulp x) \<le> 2 ^ 53" by (rule roundHalfEven_le)
  then have "(of_int (roundHalfEven (x / ulp x)) :: rat) \<le> of_int (2 ^ 53)"
    by (simp only: of_int_le_iff)
  then have "of_int (roundHalfEven (x / ulp x)) * ulp x \<le> of_int (2 ^ 53) * ulp x"
    using ulp_pos [of x] by (simp only: mult_right_mono less_imp_le)
  then show ?thesis using assms by (simp add: fl_pos_eq u pe e_def [symmetric])
qed

lemma fl_nonneg: "0 \<le> x \<Longrightarrow> 0 \<le> fl x"
proof (cases "x = 0")
  case True
  then show ?thesis by (simp add: fl_0)
next
  case False
  assume "0 \<le> x"
  then have p: "0 < x" using False by simp
  have "0 \<le> x / ulp x" using p ulp_pos [of x] by simp
  then have "0 \<le> roundHalfEven (x / ulp x)" using roundHalfEven_ge [of 0] by simp
  then show ?thesis using p ulp_pos [of x] by (simp add: fl_pos_eq)
qed

lemma fl_mono_pos:
  assumes "0 < x" "x \<le> y"
  shows "fl x \<le> fl y"
proof -
  have py: "0 < y" using assms by simp
  define ex where "ex = max (expo x) (- 1022)"
  define ey where "ey = max (expo y) (- 1022)"
  have le: "ex \<le> ey" using expo_mono [OF assms] by (simp add: ex_def ey_def)
  show ?thesis
  proof (cases "ex = ey")
    case True
    then have u: "ulp x = ulp y" by (simp add: ulp_def ex_def ey_def)
    have "x / ulp y \<le> y / ulp y" using assms(2) ulp_pos [of y] by (simp add: divide_right_mono)
    then have "roundHalfEven (x / ulp y) \<le> roundHalfEven (y / ulp y)" by (rule roundHalfEven_mono)
    then have "(of_int (roundHalfEven (x / ulp y)) :: rat) \<le> of_int (roundHalfEven (y / ulp y))"
      by (simp only: of_int_le_iff)
    then have "of_int (roundHalfEven (x / ulp y)) * ulp y \<le> of_int (roundHalfEven (y / ulp y)) * ulp y"
      using ulp_pos [of y] by (simp only: mult_right_mono less_imp_le)
    then show ?thesis using assms(1) py by (simp add: fl_pos_eq u)
  next
    case False
    then have lt: "ex + 1 \<le> ey" using le by simp
    then have eyy: "ey = expo y" by (auto simp add: ey_def ex_def)
    have "fl x \<le> pow2 (ex + 1)" using fl_upper [OF assms(1)] by (simp add: ex_def)
    also have "\<dots> \<le> pow2 ey" using lt by (simp add: pow2_le_iff)
    also have "\<dots> \<le> fl y"
    proof -
      have "pow2 ey \<le> y" using expo_bounds [OF py] by (simp add: eyy)
      then show ?thesis using fl_lower [OF py] by (simp add: ey_def)
    qed
    finally show ?thesis .
  qed
qed

lemma fl_mono:
  assumes "x \<le> y"
  shows "fl x \<le> fl y"
proof -
  consider "0 < x" | "x \<le> 0" "0 \<le> y" | "y < 0" by linarith
  then show ?thesis
  proof cases
    case 1
    then show ?thesis using assms by (rule fl_mono_pos)
  next
    case 2
    have "fl x \<le> 0" using fl_nonneg [of "- x"] 2(1) by (simp add: fl_minus)
    moreover have "0 \<le> fl y" using 2(2) by (rule fl_nonneg)
    ultimately show ?thesis by simp
  next
    case 3
    have "fl (- y) \<le> fl (- x)" using 3 assms by (intro fl_mono_pos) simp_all
    then show ?thesis by (simp add: fl_minus)
  qed
qed

lemma ulp_normal: "pow2 (- 1022) \<le> x \<Longrightarrow> ulp x = pow2 (expo x - 52)"
proof -
  assume "pow2 (- 1022) \<le> x"
  then have "- 1022 \<le> expo x" by (rule expo_ge)
  then show ?thesis by (simp add: ulp_def)
qed

lemma fl_idem: "fl (fl x) = fl x"
proof -
  have pos: "fl (fl y) = fl y" if p: "0 < y" for y
  proof -
    define e where "e = max (expo y) (- 1022)"
    define m where "m = roundHalfEven (y / ulp y)"
    have u: "ulp y = pow2 (e - 52)" by (simp add: ulp_def e_def)
    have f: "fl y = of_int m * pow2 (e - 52)" using p by (simp add: fl_pos_eq m_def u)
    have e: "- 1074 \<le> e - 52" by (simp add: e_def)
    have "0 \<le> y / ulp y" using p ulp_pos [of y] by simp
    then have m0: "0 \<le> m" using roundHalfEven_ge [of 0] by (simp add: m_def)
    have "e + 1 = 53 + (e - 52)" by simp
    then have "pow2 (e + 1) = pow2 53 * pow2 (e - 52)" by (simp only: pow2_add)
    also have "pow2 53 = of_int (2 ^ 53)" by (simp add: pow2_def)
    finally have pe: "pow2 (e + 1) = of_int (2 ^ 53) * pow2 (e - 52)" .
    have "of_int m * pow2 (e - 52) \<le> of_int (2 ^ 53) * pow2 (e - 52)"
      using fl_upper [OF p] by (simp only: f e_def [symmetric] pe)
    then have "(of_int m :: rat) \<le> of_int (2 ^ 53)"
      using pow2_pos [of "e - 52"] by (simp only: mult_le_cancel_right_pos)
    then have m1: "m \<le> 2 ^ 53" by (simp only: of_int_le_iff)
    consider "m = 0" | "0 < m" "m < 2 ^ 53" | "m = 2 ^ 53" using m0 m1 by linarith
    then show ?thesis
    proof cases
      case 1
      then show ?thesis by (simp add: f fl_0)
    next
      case 2
      from fl_grid [OF 2 e] show ?thesis by (simp only: f)
    next
      case 3
      then have "fl y = pow2 (e + 1)" by (simp only: f pe)
      moreover have "fl (pow2 (e + 1)) = pow2 (e + 1)" using e by (intro fl_pow2) simp
      ultimately show ?thesis by simp
    qed
  qed
  consider "x = 0" | "0 < x" | "x < 0" by linarith
  then show ?thesis
  proof cases
    case 1
    then show ?thesis by (simp add: fl_0)
  next
    case 2
    then show ?thesis by (rule pos)
  next
    case 3
    then have "0 < - x" by simp
    from pos [OF this] show ?thesis by (simp add: fl_minus)
  qed
qed

lemma grid_step:
  fixes u :: rat
  assumes "a = of_int m * u" "b = of_int n * u" "0 < u" "a < b"
  shows "a + u \<le> b"
proof -
  have "of_int m * u < of_int n * u" using assms(4) by (simp only: assms(1,2))
  then have "(of_int m :: rat) < of_int n"
    using assms(3) by (simp only: mult_less_cancel_right_pos)
  then have "m + 1 \<le> n" by simp
  then have "(of_int (m + 1) :: rat) \<le> of_int n" by (simp only: of_int_le_iff)
  then have "of_int (m + 1) * u \<le> of_int n * u"
    using assms(3) by (simp only: mult_right_mono less_imp_le)
  then show ?thesis by (simp add: assms(1,2) distrib_right)
qed

lemma double_rep:
  assumes "is_double y" "0 < y"
  shows "y = of_int (roundHalfEven (y / ulp y)) * ulp y"
  using assms fl_pos_eq [of y] by (simp add: is_double_def)

lemma pow2_shift: "pow2 e * pow2 (- 53) = pow2 (e - 53)"
  by (simp flip: pow2_add)

lemma pow2_53_split: "pow2 e = of_int (2 ^ 53) * pow2 (e - 53)"
proof -
  have "e = 53 + (e - 53)" by simp
  then have "pow2 e = pow2 53 * pow2 (e - 53)" by (simp only: pow2_add [symmetric])
  moreover have "pow2 53 = of_int (2 ^ 53)" by (simp add: pow2_def)
  ultimately show ?thesis by simp
qed

lemma pow2_52_split: "pow2 e = of_int (2 ^ 52) * pow2 (e - 52)"
proof -
  have "e = 52 + (e - 52)" by simp
  then have "pow2 e = pow2 52 * pow2 (e - 52)" by (simp only: pow2_add [symmetric])
  moreover have "pow2 52 = of_int (2 ^ 52)" by (simp add: pow2_def)
  ultimately show ?thesis by simp
qed

text \<open>Two different doubles are at least one unit apart.\<close>

lemma double_gap:
  assumes d: "is_double d" "pow2 (- 1022) \<le> d" and y: "is_double y" and lt: "d < y"
  shows "d \<le> y - y * pow2 (- 53)"
proof -
  have pd: "0 < d" using d(2) pow2_pos [of "- 1022"] by linarith
  have py: "0 < y" using pd lt by simp
  define e where "e = expo y"
  have ny: "pow2 (- 1022) \<le> y" using d(2) lt by simp
  have uy: "ulp y = pow2 (e - 52)" using ulp_normal [OF ny] by (simp add: e_def)
  have bnd: "pow2 e \<le> y" "y < pow2 (e + 1)" using expo_bounds [OF py] by (simp_all add: e_def)
  have ry: "y = of_int (roundHalfEven (y / ulp y)) * pow2 (e - 52)"
    using double_rep [OF y py] by (simp add: uy)
  have pu: "0 < pow2 (e - 52)" by (rule pow2_pos)
  have "y * pow2 (- 53) < pow2 (e + 1) * pow2 (- 53)"
    using bnd(2) pow2_pos [of "- 53"] by (simp only: mult_strict_right_mono)
  then have small: "y * pow2 (- 53) < pow2 (e - 52)" by (simp add: pow2_shift)
  show ?thesis
  proof (cases "pow2 e \<le> d")
    case True
    have "d < pow2 (e + 1)" using lt bnd(2) by simp
    with True have ed: "expo d = e" by (rule expo_unique)
    have ud: "ulp d = pow2 (e - 52)" using ulp_normal [OF d(2)] by (simp add: ed)
    have rd: "d = of_int (roundHalfEven (d / ulp d)) * pow2 (e - 52)"
      using double_rep [OF d(1) pd] by (simp add: ud)
    from grid_step [OF rd ry pu lt] show ?thesis using small by linarith
  next
    case False
    then have dl: "d < pow2 e" by simp
    show ?thesis
    proof (cases "y = pow2 e")
      case False
      then have "pow2 e < y" using bnd(1) by simp
      then have "pow2 e + pow2 (e - 52) \<le> y"
        using grid_step [OF pow2_52_split [of e] ry pu] by blast
      then show ?thesis using dl small by linarith
    next
      case True
      have ed: "expo d < e" using pd dl by (rule expo_less)
      have yy: "y * pow2 (- 53) = pow2 (e - 53)" by (simp add: True pow2_shift)
      show ?thesis
      proof (cases "expo d = e - 1")
        case True
        have ud: "ulp d = pow2 (e - 53)" using ulp_normal [OF d(2)] by (simp add: True)
        have rd: "d = of_int (roundHalfEven (d / ulp d)) * pow2 (e - 53)"
          using double_rep [OF d(1) pd] by (simp add: ud)
        have ry': "y = of_int (2 ^ 53) * pow2 (e - 53)"
          using pow2_53_split [of e] by (simp only: \<open>y = pow2 e\<close>)
        from grid_step [OF rd ry' pow2_pos lt] show ?thesis by (simp only: yy)
      next
        case False
        then have "expo d + 1 \<le> e - 1" using ed by simp
        then have "pow2 (expo d + 1) \<le> pow2 (e - 1)" by (simp only: pow2_le_iff)
        then have "d < pow2 (e - 1)" using expo_bounds [OF pd] by linarith
        moreover have "pow2 e = 2 * pow2 (e - 1)" using pow2_Suc [of "e - 1"] by simp
        moreover have "pow2 (e - 53) \<le> pow2 (e - 1)" by (simp add: pow2_le_iff)
        ultimately show ?thesis using yy \<open>y = pow2 e\<close> by linarith
      qed
    qed
  qed
qed

text \<open>A number one rounding unit below a double is rounded below it.\<close>

lemma fl_below:
  assumes y: "is_double y" "pow2 (- 1021) \<le> y" and x: "x \<le> y - y * pow2 (- 53)"
  shows "fl x < y"
proof -
  have py: "0 < y" using y(2) pow2_pos [of "- 1021"] by linarith
  define e where "e = expo y"
  have e: "- 1021 \<le> e" using y(2) by (simp add: e_def expo_ge)
  have bnd: "pow2 e \<le> y" "y < pow2 (e + 1)" using expo_bounds [OF py] by (simp_all add: e_def)
  define z where "z = y - y * pow2 (- 53)"
  have zy: "z < y" using py pow2_pos [of "- 53"] by (simp add: z_def)
  have "pow2 e * pow2 (- 53) \<le> y * pow2 (- 53)"
    using bnd(1) pow2_pos [of "- 53"] by (simp only: mult_right_mono less_imp_le)
  then have gap: "pow2 (e - 53) \<le> y - z" by (simp add: z_def pow2_shift)
  have "pow2 (- 53) \<le> pow2 (- 1)" by (simp add: pow2_le_iff)
  moreover have "pow2 (- 1) = 1 / 2" by (simp add: pow2_def)
  ultimately have "y * pow2 (- 53) \<le> y * (1 / 2)"
    using py by (simp only: mult_left_mono less_imp_le)
  then have pz: "0 < z" using py by (simp add: z_def)
  have "fl z \<le> fl y" using zy by (intro fl_mono) simp
  then have le: "fl z \<le> y" using y(1) by (simp add: is_double_def)
  have "fl z \<noteq> y"
  proof
    assume eq: "fl z = y"
    have "\<bar>fl z - z\<bar> \<le> ulp \<bar>z\<bar> / 2" by (rule fl_err)
    then have err: "y - z \<le> ulp z / 2" using eq zy pz by simp
    have ez: "expo z \<le> e" using expo_mono [OF pz, of y] zy by (simp add: e_def)
    show False
    proof (cases "expo z = e")
      case True
      then have ze: "pow2 e \<le> z" using expo_bounds [OF pz] by simp
      then have nz: "pow2 (- 1022) \<le> z"
        using e pow2_mono [of "- 1022" e] by simp
      have "ulp z = pow2 (e - 52)" using ulp_normal [OF nz] by (simp add: True)
      also have "\<dots> = 2 * pow2 (e - 53)" using pow2_Suc [of "e - 53"] by simp
      finally have "y - z \<le> pow2 (e - 53)" using err by simp
      then have "y * pow2 (- 53) \<le> pow2 e * pow2 (- 53)"
        by (simp add: z_def pow2_shift)
      then have "y \<le> pow2 e" using pow2_pos [of "- 53"] by (simp only: mult_le_cancel_right_pos)
      then show False using ze zy by simp
    next
      case False
      then have "max (expo z) (- 1022) - 52 \<le> e - 53" using ez e by simp
      then have "ulp z \<le> pow2 (e - 53)" by (simp only: ulp_def pow2_le_iff)
      then have "y - z \<le> pow2 (e - 53) / 2" using err by simp
      then show False using gap pow2_pos [of "e - 53"] by simp
    qed
  qed
  then have "fl z < y" using le by simp
  moreover have "fl x \<le> fl z" using x by (intro fl_mono) (simp add: z_def)
  ultimately show ?thesis by simp
qed

lemma fl_div_below:
  assumes d: "is_double d" "pow2 (- 1022) \<le> d" and y: "is_double y" and lt: "d < y"
    and c: "0 < c" and yc: "is_double (y / c)" "pow2 (- 1021) \<le> y / c"
  shows "fl (d / c) < y / c"
proof -
  have "d \<le> y - y * pow2 (- 53)" using d y lt by (rule double_gap)
  then have "d / c \<le> (y - y * pow2 (- 53)) / c" using c by (simp only: divide_right_mono less_imp_le)
  then have "d / c \<le> y / c - (y / c) * pow2 (- 53)" by (simp add: diff_divide_distrib)
  with yc show ?thesis by (rule fl_below)
qed

lemma roundHalfEven_near:
  assumes "\<bar>r - of_int m\<bar> < 1 / 2"
  shows "roundHalfEven r = m"
proof -
  have "\<bar>of_int (roundHalfEven r) - r\<bar> \<le> 1 / 2" by (rule roundHalfEven_err)
  then have "\<bar>(of_int (roundHalfEven r) :: rat) - of_int m\<bar> < 1" using assms by linarith
  then have "\<bar>(of_int (roundHalfEven r - m) :: rat)\<bar> < 1" by simp
  then have "\<bar>roundHalfEven r - m\<bar> < 1" by (simp only: of_int_abs [symmetric] of_int_less_1_iff)
  then show ?thesis by simp
qed

lemma fl_eq_grid:
  assumes "pow2 e \<le> x" "x < pow2 (e + 1)" "- 1022 \<le> e"
    and "\<bar>x - of_int m * pow2 (e - 52)\<bar> < pow2 (e - 53)"
  shows "fl x = of_int m * pow2 (e - 52)"
proof -
  have px: "0 < x" using assms(1) pow2_pos [of e] by linarith
  have ex: "expo x = e" using assms(1,2) by (rule expo_unique)
  have u: "ulp x = pow2 (e - 52)" using assms(3) by (simp add: ulp_def ex)
  have pu: "0 < pow2 (e - 52)" by (rule pow2_pos)
  have h: "pow2 (e - 53) = (1 / 2) * pow2 (e - 52)" using pow2_Suc [of "e - 53"] by simp
  have "\<bar>x / pow2 (e - 52) - of_int m\<bar> * pow2 (e - 52) = \<bar>x - of_int m * pow2 (e - 52)\<bar>"
  proof -
    have "x - of_int m * pow2 (e - 52) = (x / pow2 (e - 52) - of_int m) * pow2 (e - 52)"
      using pu by (simp add: left_diff_distrib)
    then show ?thesis using pu by (simp only: abs_mult abs_of_pos)
  qed
  then have "\<bar>x / pow2 (e - 52) - of_int m\<bar> * pow2 (e - 52) < (1 / 2) * pow2 (e - 52)"
    using assms(4) by (simp only: h)
  then have "\<bar>x / pow2 (e - 52) - of_int m\<bar> < 1 / 2"
    using pu by (simp only: mult_less_cancel_right_pos)
  then have "roundHalfEven (x / pow2 (e - 52)) = m" by (rule roundHalfEven_near)
  then show ?thesis using px by (simp add: fl_pos_eq u)
qed

lemma round64_Some: "\<bar>fl x\<bar> < 2 ^ 1024 \<Longrightarrow> round64 x = Some (fl x)"
  by (simp add: round64_def)

lemma is_double_grid:
  assumes "0 < k" "k < 2 ^ 53" "- 1074 \<le> j" "of_int k * pow2 j < 2 ^ 1024"
  shows "is_double (of_int k * pow2 j)"
proof -
  have "0 < of_int k * pow2 j" using assms(1) pow2_pos [of j] by simp
  then show ?thesis using fl_grid [OF assms(1-3)] assms(4) by (simp add: is_double_def)
qed

lemma is_double_of_int:
  assumes "0 \<le> k" "k < 2 ^ 53"
  shows "is_double (of_int k)"
proof -
  have "(of_int k :: rat) < of_int (2 ^ 53)" using assms(2) by (simp only: of_int_less_iff)
  then have "\<bar>of_int k :: rat\<bar> < 2 ^ 1024" using assms(1) by simp
  then show ?thesis using fl_of_int [OF assms] by (simp add: is_double_def)
qed

lemma is_double_half:
  assumes "0 < k" "k < 2 ^ 53"
  shows "is_double (of_int k * (1 / 2))"
proof -
  have p: "pow2 (- 1) = 1 / 2" by (simp add: pow2_def)
  have "(of_int k :: rat) < of_int (2 ^ 53)" using assms(2) by (simp only: of_int_less_iff)
  then have "of_int k * pow2 (- 1) < 2 ^ 1024" by (simp add: p)
  from is_double_grid [OF assms _ this] show ?thesis by (simp add: p)
qed

lemma is_doubleD: "is_double x \<Longrightarrow> fl x = x"
  by (simp add: is_double_def)

subsection \<open>Single operations at the distances used below\<close>

lemma r64_0: "round64 (1 / 5) = Some (3602879701896397 / 18014398509481984)"
  using fl_eq_grid [of "- 3" "1 / 5" "7205759403792794"] by (simp add: round64_def pow2_def)

lemma r64_1: "round64 (6 / 5) = Some (5404319552844595 / 4503599627370496)"
  using fl_eq_grid [of "0" "6 / 5" "5404319552844595"] by (simp add: round64_def pow2_def)

lemma r64_2: "round64 (8 / 25) = Some (5764607523034235 / 18014398509481984)"
  using fl_eq_grid [of "- 2" "8 / 25" "5764607523034235"] by (simp add: round64_def pow2_def)

lemma r64_3: "round64 (5764607523034235 / 81064793292668928) = Some (5124095576030431 / 72057594037927936)"
  using fl_eq_grid [of "- 4" "5764607523034235 / 81064793292668928" "5124095576030431"] by (simp add: round64_def pow2_def)

lemma r64_4: "round64 0 = Some 0"
  by (simp add: round64_def fl_0)

lemma r64_5: "round64 (86469112845513525 / 4503599627370496) = Some (5404319552844595 / 281474976710656)"
  using fl_eq_grid [of "4" "86469112845513525 / 4503599627370496" "5404319552844595"] by (simp add: round64_def pow2_def)

lemma r64_6: "round64 (29206669829258403248756220714025 / 1267650600228229401496703205376) = Some (3242591731706757 / 140737488355328)"
  using fl_eq_grid [of "4" "29206669829258403248756220714025 / 1267650600228229401496703205376" "6485183463413514"] by (simp add: round64_def pow2_def)

lemma r64_7: "round64 (3242591731706757 / 140737488355328) = Some (3242591731706757 / 140737488355328)"
  using fl_eq_grid [of "4" "3242591731706757 / 140737488355328" "6485183463413514"] by (simp add: round64_def pow2_def)

lemma r64_8: "round64 (6057341498813317 / 140737488355328) = Some (6057341498813317 / 140737488355328)"
  using fl_eq_grid [of "5" "6057341498813317 / 140737488355328" "6057341498813317"] by (simp add: round64_def pow2_def)

lemma r64_9: "round64 (7464716382366597 / 140737488355328) = Some (7464716382366597 / 140737488355328)"
  using fl_eq_grid [of "5" "7464716382366597 / 140737488355328" "7464716382366597"] by (simp add: round64_def pow2_def)

lemma r64_10: "round64 (8872091265919877 / 140737488355328) = Some (8872091265919877 / 140737488355328)"
  using fl_eq_grid [of "5" "8872091265919877 / 140737488355328" "8872091265919877"] by (simp add: round64_def pow2_def)

lemma r64_11: "round64 (125000000000000000000) = Some (125000000000000000000)"
  using fl_eq_grid [of "66" "125000000000000000000" "7629394531250000"] by (simp add: round64_def pow2_def)

lemma r64_12: "round64 (250000000000000000000 / 9) = Some (27777777777777778688)"
  using fl_eq_grid [of "64" "250000000000000000000 / 9" "6781684027777778"] by (simp add: round64_def pow2_def)

lemma r64_13: "round64 (7036874417766399 / 112589990684262400) = Some (9007199254740991 / 144115188075855872)"
  using fl_eq_grid [of "- 5" "7036874417766399 / 112589990684262400" "9007199254740991"] by (simp add: round64_def pow2_def)

lemma r64_14: "round64 (135107988821114865 / 36028797018963968) = Some (8444249301319679 / 2251799813685248)"
  using fl_eq_grid [of "1" "135107988821114865 / 36028797018963968" "8444249301319679"] by (simp add: round64_def pow2_def)

lemma r64_15: "round64 (30423614405477503721891035296563 / 40564819207303340847894502572032) = Some (3 / 4)"
  using fl_eq_grid [of "- 1" "30423614405477503721891035296563 / 40564819207303340847894502572032" "6755399441055744"] by (simp add: round64_def pow2_def)

lemma r64_16: "round64 (42221246506598399 / 2251799813685248) = Some (75 / 4)"
  using fl_eq_grid [of "4" "42221246506598399 / 2251799813685248" "5277655813324800"] by (simp add: round64_def pow2_def)

lemma r64_17: "round64 (39 / 2) = Some (39 / 2)"
  using fl_eq_grid [of "4" "39 / 2" "5488762045857792"] by (simp add: round64_def pow2_def)

lemma r64_18: "round64 (3 / 5) = Some (5404319552844595 / 9007199254740992)"
  using fl_eq_grid [of "- 1" "3 / 5" "5404319552844595"] by (simp add: round64_def pow2_def)

lemma r64_19: "round64 (81064793292668925 / 2251799813685248) = Some (36)"
  using fl_eq_grid [of "5" "81064793292668925 / 2251799813685248" "5066549580791808"] by (simp add: round64_def pow2_def)

lemma r64_20: "round64 (32425917317067573 / 4503599627370496) = Some (8106479329266893 / 1125899906842624)"
  using fl_eq_grid [of "2" "32425917317067573 / 4503599627370496" "8106479329266893"] by (simp add: round64_def pow2_def)

lemma r64_21: "round64 (51) = Some (51)"
  using fl_eq_grid [of "5" "51" "7177611906121728"] by (simp add: round64_def pow2_def)

lemma r64_22: "round64 (65527374578240717 / 1125899906842624) = Some (4095460911140045 / 70368744177664)"
  using fl_eq_grid [of "5" "65527374578240717 / 1125899906842624" "8190921822280090"] by (simp add: round64_def pow2_def)

lemmas r64 = r64_0 r64_1 r64_2 r64_3 r64_4 r64_5 r64_6 r64_7 r64_8 r64_9 r64_10 r64_11 r64_12 r64_13 r64_14 r64_15 r64_16 r64_17 r64_18 r64_19 r64_20 r64_21 r64_22

lemma floor_rat_numeral: "\<lfloor>(numeral a :: rat) / numeral b\<rfloor> = numeral a div numeral b"
  by (metis floor_divide_of_int_eq of_int_numeral)

lemma fl_fifth: "fl (1 / 5) = 3602879701896397 / 18014398509481984"
  using fl_eq_grid [of "- 3" "1 / 5" 7205759403792794] by (simp add: pow2_def)

lemma fl_normal: "normal timeFactors64 = 5404319552844595 / 4503599627370496"
  using fl_eq_grid [of 0 "6 / 5" 5404319552844595] by (simp add: timeFactors64_def pow2_def)

lemmas ev64 = num_add_def num_mul_def num_div_def baseSpeed_def truckSpeeds_def
  truckFactors_def fl_fifth fl_normal Math_round_def Math_floor_def floor_rat_numeral r64

lemma short_branch64:
  "d \<le> 15 \<Longrightarrow> calculateTruckDuration64 d h =
     \<lparr>duration64 = map_option Math_round
        (num_add (num_add (baseMinutes64 d) (Some 15))
           (num_mul (baseMinutes64 d) (Some (fl (1 / 5))))),
      restStops64 = Some 0\<rparr>"
  by (simp add: calculateTruckDuration64_def baseMinutes64_def Let_def)

lemma long_branch64:
  "15 < d \<Longrightarrow> calculateTruckDuration64 d h =
     \<lparr>duration64 = map_option Math_round
        (tripTotal64 d (num_mul (map_option of_int (restStopCount64 d)) (Some 45))),
      restStops64 = restStopCount64 d\<rparr>"
  by (simp add: calculateTruckDuration64_def tripTotal64_def loadedTotal64_def
      restStopCount64_def Let_def)

subsection \<open>The estimator in binary64\<close>

lemma estimate64_at_16: "calculateTruckDuration64 16 h = \<lparr>duration64 = Some 53, restStops64 = Some 0\<rparr>"
  by (simp add: calculateTruckDuration64_def ev64)

lemma total64_at_16_with_20: "map_option Math_round (num_add (loadedTotal64 16
     (num_mul (map_option of_int (restStopCount64 16)) (Some 45))) (Some 20)) = Some 63"
  by (simp add: loadedTotal64_def restStopCount64_def ev64)

lemma stops64_at_1e22: "restStops64 (calculateTruckDuration64 (10 ^ 22) h) = Some 27777777777777778688"
  by (simp add: long_branch64 restStopCount64_def ev64)

lemma estimate64_at_15: "calculateTruckDuration64 15 h = \<lparr>duration64 = Some 58, restStops64 = Some 0\<rparr>"
  by (simp add: calculateTruckDuration64_def ev64)

lemma estimate64_below_25_16: "calculateTruckDuration64 (25 / 16 - 1 / 2 ^ 52) h = \<lparr>duration64 = Some 20, restStops64 = Some 0\<rparr>"
  by (simp add: calculateTruckDuration64_def ev64)

lemma exact_round_below_25_16: "Math_round (((25 / 16 - 1 / 2 ^ 52) / 25) * 60 + 15
      + (1 / 5) * ((25 / 16 - 1 / 2 ^ 52) / 25) * 60) = 19"
  by (simp add: Math_round_def floor_rat_numeral)

text \<open>The number of rest stops is the exact quotient's floor.\<close>

lemma stops_exact:
  assumes d: "is_double d" "15 < d" "d \<le> 2 ^ 52"
    and t: "bs = of_int (2 * t)" "25 \<le> t" "t \<le> 40"
  shows "round64 (d / bs) = Some (fl (d / bs))"
    and "round64 (fl (d / bs) / (9 / 2)) = Some (fl (fl (d / bs) / (9 / 2)))"
    and "\<lfloor>fl (fl (d / bs) / (9 / 2))\<rfloor> = \<lfloor>(d / bs) / (9 / 2)\<rfloor>"
    and "\<lfloor>(d / bs) / (9 / 2)\<rfloor> * 45 < 2 ^ 53" and "0 \<le> \<lfloor>(d / bs) / (9 / 2)\<rfloor>"
proof -
  define x where "x = d / bs"
  define n where "n = \<lfloor>x / (9 / 2)\<rfloor>"
  define K where "K = n + 1"
  have bs: "0 < bs" "bs \<le> 80"
  proof -
    have "(of_int (2 * t) :: rat) \<le> of_int 80" using t(3) by (simp add: of_int_le_iff)
    moreover have "(of_int 0 :: rat) < of_int (2 * t)" using t(2) by (simp add: of_int_less_iff)
    ultimately show "0 < bs" "bs \<le> 80" by (simp_all add: t(1))
  qed
  have c: "bs * (9 / 2) = of_int (9 * t)" by (simp add: t(1))
  have cpos: "(0::rat) < of_int (9 * t)" using t(2) by simp
  have x0: "0 \<le> x" using d(2) bs(1) by (simp add: x_def)
  have q0: "0 \<le> x / (9 / 2)" using x0 by simp
  then have n0: "0 \<le> n" unfolding n_def by (simp only: zero_le_floor)
  have K1: "1 \<le> K" using n0 by (simp add: K_def)
  have eq: "x / (9 / 2) = d / of_int (9 * t)" by (simp add: x_def t(1))
  have nl: "of_int n \<le> x / (9 / 2)" unfolding n_def by (rule of_int_floor_le)
  have nu: "x / (9 / 2) < of_int K" unfolding K_def n_def by linarith
  have "of_int n * of_int (9 * t) \<le> d" using nl cpos by (simp only: eq pos_le_divide_eq)
  then have ncd: "of_int (n * (9 * t)) \<le> d" by simp
  have "d < of_int K * of_int (9 * t)" using nu cpos by (simp only: eq pos_divide_less_eq)
  then have dY: "d < of_int (K * (9 * t))" by simp
  have "(of_int (9 * t) :: rat) \<le> of_int 360" using t(3) by (simp add: of_int_le_iff)
  moreover have "(of_int (K * (9 * t)) :: rat) = of_int (n * (9 * t)) + of_int (9 * t)"
    by (simp add: K_def distrib_right)
  ultimately have "(of_int (K * (9 * t)) :: rat) < of_int (2 ^ 53)" using ncd d(3) by simp
  then have Kc: "K * (9 * t) < 2 ^ 53" by (simp only: of_int_less_iff)
  have "9 * K * 1 \<le> 9 * K * t" using K1 t(2) by (intro mult_left_mono) simp_all
  then have K9: "9 * K < 2 ^ 53" using Kc by (simp add: mult.commute mult.left_commute)
  then have K53: "K < 2 ^ 53" using K1 by simp
  have n9: "9 * n < 2 ^ 53" using K9 by (simp add: K_def)
  have "n * 45 \<le> n * (9 * t)" using n0 t(2) by (intro mult_left_mono) simp_all
  moreover have "n * (9 * t) \<le> K * (9 * t)" using t(2) by (simp add: K_def distrib_right)
  ultimately have "n * 45 < 2 ^ 53" using Kc by linarith
  then show "\<lfloor>(d / bs) / (9 / 2)\<rfloor> * 45 < 2 ^ 53" unfolding n_def x_def .
  show "0 \<le> \<lfloor>(d / bs) / (9 / 2)\<rfloor>" using n0 unfolding n_def x_def .
  have lo1: "of_int (9 * n) * (1 / 2) \<le> fl x"
  proof (cases "n = 0")
    case True
    show ?thesis using fl_nonneg [OF x0] by (simp add: True)
  next
    case False
    then have "0 < 9 * n" using n0 by simp
    then have "is_double (of_int (9 * n) * (1 / 2))" using n9 by (rule is_double_half)
    then have "fl (of_int (9 * n) * (1 / 2)) = of_int (9 * n) * (1 / 2)" by (rule is_doubleD)
    moreover have "of_int (9 * n) * (1 / 2) \<le> x" using nl by simp
    ultimately show ?thesis using fl_mono [of "of_int (9 * n) * (1 / 2)" "x"] by simp
  qed
  have "of_int n \<le> fl x / (9 / 2)" using lo1 by simp
  then have "fl (of_int n) \<le> fl (fl x / (9 / 2))" by (rule fl_mono)
  then have lo2: "of_int n \<le> fl (fl x / (9 / 2))"
    using fl_of_int [of n] n0 K53 by (simp add: K_def)
  have nd: "pow2 (- 1022) \<le> d"
  proof -
    have "pow2 (- 1022) \<le> pow2 0" by (simp add: pow2_le_iff)
    then show ?thesis using d(2) by (simp add: pow2_0)
  qed
  have Yd: "is_double (of_int (K * (9 * t)))"
    using K1 t(2) Kc by (intro is_double_of_int) simp_all
  have Yq: "of_int (K * (9 * t)) / bs = of_int (9 * K) * (1 / 2)" using t(2) by (simp add: t(1))
  have Y1d: "is_double (of_int (9 * K) * (1 / 2))" using K1 K9 by (intro is_double_half) simp_all
  have Y1n: "pow2 (- 1021) \<le> of_int (9 * K) * (1 / 2)"
  proof -
    have "pow2 (- 1021) \<le> pow2 0" by (simp add: pow2_le_iff)
    moreover have "(of_int 1 :: rat) \<le> of_int K" using K1 by (simp only: of_int_le_iff)
    ultimately show ?thesis by (simp add: pow2_0)
  qed
  have up1: "fl x < of_int (9 * K) * (1 / 2)"
    using fl_div_below [OF d(1) nd Yd dY bs(1)] Y1d Y1n by (simp only: Yq x_def)
  have f0: "0 \<le> fl x" using x0 by (rule fl_nonneg)
  have "(of_int (9 * K) :: rat) < of_int (2 ^ 53)" using K9 by (simp only: of_int_less_iff)
  then have big: "fl x < 2 ^ 53" using up1 by simp
  then have "\<bar>fl x\<bar> < 2 ^ 1024" using f0 by simp
  then show "round64 (d / bs) = Some (fl (d / bs))" unfolding x_def by (rule round64_Some)
  have d'd: "is_double (fl x)"
    using \<open>\<bar>fl x\<bar> < 2 ^ 1024\<close> by (simp add: is_double_def fl_idem)
  have d'n: "pow2 (- 1022) \<le> fl x"
  proof -
    have "1 / 8 \<le> x" using d(2) bs by (simp add: x_def pos_le_divide_eq)
    then have "fl (1 / 8) \<le> fl x" by (rule fl_mono)
    moreover have "fl (pow2 (- 3)) = pow2 (- 3)" by (intro fl_pow2) simp
    moreover have "pow2 (- 3) = 1 / 8" by (simp add: pow2_def)
    moreover have "pow2 (- 1022) \<le> pow2 (- 3)" by (simp add: pow2_le_iff)
    ultimately show ?thesis by simp
  qed
  have Kq: "of_int (9 * K) * (1 / 2) / (9 / 2) = (of_int K :: rat)" by simp
  have Kd: "is_double (of_int K)" using K1 K53 by (intro is_double_of_int) simp_all
  have Kn: "pow2 (- 1021) \<le> of_int K"
  proof -
    have "pow2 (- 1021) \<le> pow2 0" by (simp add: pow2_le_iff)
    moreover have "(of_int 1 :: rat) \<le> of_int K" using K1 by (simp only: of_int_le_iff)
    ultimately show ?thesis by (simp add: pow2_0)
  qed
  have up2: "fl (fl x / (9 / 2)) < of_int K"
    using fl_div_below [OF d'd d'n Y1d up1, of "9 / 2"] Kd Kn by (simp only: Kq)
  have g0: "0 \<le> fl (fl x / (9 / 2))" using f0 by (intro fl_nonneg) simp
  have "(of_int K :: rat) < of_int (2 ^ 53)" using K53 by (simp only: of_int_less_iff)
  then have "\<bar>fl (fl x / (9 / 2))\<bar> < 2 ^ 1024" using up2 g0 by simp
  then show "round64 (fl (d / bs) / (9 / 2)) = Some (fl (fl (d / bs) / (9 / 2)))"
    unfolding x_def by (rule round64_Some)
  have "\<lfloor>fl (fl x / (9 / 2))\<rfloor> = n"
    using lo2 up2 by (simp add: floor_eq_iff K_def)
  then show "\<lfloor>fl (fl (d / bs) / (9 / 2))\<rfloor> = \<lfloor>(d / bs) / (9 / 2)\<rfloor>" unfolding n_def x_def .
qed

lemma baseSpeed_even:
  "\<exists>t. baseSpeed d = of_int (2 * t) \<and> 25 \<le> t \<and> t \<le> 40"
proof -
  have "baseSpeed d = of_int (2 * 40) \<or> baseSpeed d = of_int (2 * 30) \<or> baseSpeed d = of_int (2 * 25)"
    by (simp add: baseSpeed_def truckSpeeds_def)
  then show ?thesis by (elim disjE) (rule exI, erule conjI, simp)+
qed

lemma restStopCount64_exact:
  assumes "is_double d" "15 < d" "d \<le> 2 ^ 52"
  shows "restStopCount64 d = Some \<lfloor>(d / baseSpeed d) / (9 / 2)\<rfloor>"
proof -
  obtain t where t: "baseSpeed d = of_int (2 * t)" "25 \<le> t" "t \<le> 40"
    using baseSpeed_even [of d] by blast
  show ?thesis
    using stops_exact(1-3) [OF assms t]
    by (simp add: restStopCount64_def num_div_def Math_floor_def)
qed

lemma restTime64_exact:
  assumes "is_double d" "15 < d" "d \<le> 2 ^ 52"
  shows "num_mul (map_option of_int (restStopCount64 d)) (Some 45)
    = Some (of_int \<lfloor>(d / baseSpeed d) / (9 / 2)\<rfloor> * 45)"
proof -
  obtain t where t: "baseSpeed d = of_int (2 * t)" "25 \<le> t" "t \<le> 40"
    using baseSpeed_even [of d] by blast
  define n where "n = \<lfloor>(d / baseSpeed d) / (9 / 2)\<rfloor>"
  have n: "0 \<le> n * 45" "n * 45 < 2 ^ 53"
    using stops_exact(4,5) [OF assms t] by (simp_all add: n_def)
  have f: "fl (of_int (n * 45)) = of_int (n * 45)" using n by (rule fl_of_int)
  have "(of_int (n * 45) :: rat) < of_int (2 ^ 53)" using n(2) by (simp only: of_int_less_iff)
  moreover have "(0::rat) \<le> of_int (n * 45)" using n(1) by (simp only: of_int_0_le_iff)
  ultimately have "\<bar>of_int (n * 45) :: rat\<bar> < 2 ^ 1024" by simp
  then have "round64 (of_int (n * 45)) = Some (of_int (n * 45))"
    using f by (simp add: round64_def)
  then have "round64 (of_int n * 45) = Some (of_int n * 45)" by simp
  then show ?thesis
    by (simp add: restStopCount64_exact [OF assms] num_mul_def n_def)
qed

lemma small_round:
  assumes "0 \<le> x" "x < 64"
  shows "round64 x = Some (fl x)" and "0 \<le> fl x" and "\<bar>fl x - x\<bar> \<le> 1 / 281474976710656"
proof -
  show f0: "0 \<le> fl x" using assms(1) by (rule fl_nonneg)
  have "fl x \<le> fl (of_int 64)" using assms(2) by (intro fl_mono) simp
  also have "fl (of_int 64) = of_int 64" by (intro fl_of_int) simp_all
  finally have "\<bar>fl x\<bar> < 2 ^ 1024" using f0 by simp
  then show "round64 x = Some (fl x)" by (rule round64_Some)
  show "\<bar>fl x - x\<bar> \<le> 1 / 281474976710656"
  proof (cases "x = 0")
    case True
    then show ?thesis by (simp add: fl_0)
  next
    case False
    then have px: "0 < x" using assms(1) by simp
    have "pow2 6 = 64" by (simp add: pow2_def)
    then have "expo x < 6" using expo_less [OF px, of 6] assms(2) by simp
    then have "max (expo x) (- 1022) - 52 \<le> - 47" by simp
    then have "ulp x \<le> pow2 (- 47)" by (simp only: ulp_def pow2_le_iff)
    moreover have "pow2 (- 47) = 1 / 2 ^ 47" by (simp add: pow2_def)
    moreover have "\<bar>fl x - x\<bar> \<le> ulp \<bar>x\<bar> / 2" by (rule fl_err)
    ultimately have "\<bar>fl x - x\<bar> \<le> (1 / 2 ^ 47) / 2" using px by simp
    then show ?thesis by simp
  qed
qed

lemma short_total_close:
  assumes "0 \<le> d" "d \<le> 15"
  shows "\<exists>x. num_add (num_add (baseMinutes64 d) (Some 15))
            (num_mul (baseMinutes64 d) (Some (fl (1 / 5)))) = Some x \<and>
          \<bar>x - ((d / 25) * 60 + 15 + (1 / 5) * (d / 25) * 60)\<bar> \<le> 1 / 1000000000000"
proof -
  define q where "q = fl (d / 25)"
  define bm where "bm = fl (q * 60)"
  define tb where "tb = fl (bm * (3602879701896397 / 18014398509481984))"
  define s1 where "s1 = fl (bm + 15)"
  define s2 where "s2 = fl (s1 + tb)"
  have d25: "0 \<le> d / 25" "d / 25 < 64" using assms by simp_all
  note q = small_round [OF d25, folded q_def]
  have q60: "0 \<le> q * 60" "q * 60 < 64" using q(2,3) assms by linarith+
  note bm = small_round [OF q60, folded bm_def]
  have bmc: "0 \<le> bm * (3602879701896397 / 18014398509481984)"
    "bm * (3602879701896397 / 18014398509481984) < 64"
    using bm(2,3) q(3) assms by linarith+
  note tb = small_round [OF bmc, folded tb_def]
  have b15: "0 \<le> bm + 15" "bm + 15 < 64" using bm(2,3) q(3) assms by linarith+
  note s1 = small_round [OF b15, folded s1_def]
  have st: "0 \<le> s1 + tb" "s1 + tb < 64"
    using s1(2,3) tb(2,3) bm(2,3) q(3) assms by linarith+
  note s2 = small_round [OF st, folded s2_def]
  have b: "baseMinutes64 d = Some bm"
    by (simp add: baseMinutes64_def num_div_def num_mul_def q(1) bm(1))
  have tb1: "round64 (bm * 3602879701896397 / 18014398509481984) = Some tb"
    using tb(1) by simp
  have v: "num_add (num_add (baseMinutes64 d) (Some 15))
            (num_mul (baseMinutes64 d) (Some (fl (1 / 5)))) = Some s2"
    by (simp add: b num_add_def num_mul_def fl_fifth s1(1) tb1 s2(1))
  have "\<bar>s2 - ((d / 25) * 60 + 15 + (1 / 5) * (d / 25) * 60)\<bar> \<le> 1 / 1000000000000"
    using q(3) bm(3) tb(3) s1(3) s2(3) assms unfolding abs_le_iff by linarith
  with v show ?thesis by blast
qed

lemma Math_round_close:
  assumes "\<bar>x - y\<bar> \<le> 1"
  shows "\<bar>Math_round x - Math_round y\<bar> \<le> 1"
  using assms unfolding Math_round_def by linarith

section \<open>The claims\<close>

subsection \<open>City-access delay\<close>

text \<open>
  Claim C1, as amended. The delay \<open>truckFactors.cityAccess\<close> is 20 minutes only above
  30 km and 10 minutes otherwise, and it is added only below 50 km. So: for every
  distance strictly between 30 and 50 km the estimator adds a city-access delay of
  exactly 20 minutes to the total; for every distance above 15 km and at most 30 km it
  adds exactly 10 minutes; for every distance of 50 km or more it adds none: the total
  after the loading delay is rounded as it is, or after the weight-station delay above
  100 km. The additions are those of the program, in binary64.
\<close>

theorem city_access_delay_by_distance:
  "(30 < d \<and> d < 50 \<longrightarrow>
      cityAccess (truckFactors d) = 20 \<and>
      duration64 (calculateTruckDuration64 d h) =
        map_option Math_round
          (num_add (loadedTotal64 d (num_mul (map_option of_int (restStopCount64 d)) (Some 45)))
             (Some 20))) \<and>
   (15 < d \<and> d \<le> 30 \<longrightarrow>
      cityAccess (truckFactors d) = 10 \<and>
      duration64 (calculateTruckDuration64 d h) =
        map_option Math_round
          (num_add (loadedTotal64 d (num_mul (map_option of_int (restStopCount64 d)) (Some 45)))
             (Some 10))) \<and>
   (50 \<le> d \<longrightarrow>
      duration64 (calculateTruckDuration64 d h) =
        map_option Math_round
          (if d > 100
           then num_add (loadedTotal64 d (num_mul (map_option of_int (restStopCount64 d)) (Some 45)))
             (Some 15)
           else loadedTotal64 d (num_mul (map_option of_int (restStopCount64 d)) (Some 45))))"
proof (intro conjI impI)
  assume a: "30 < d \<and> d < 50"
  then have l: "15 < d" by simp
  show "cityAccess (truckFactors d) = 20" using a by (simp add: truckFactors_def)
  then show "duration64 (calculateTruckDuration64 d h) =
        map_option Math_round
          (num_add (loadedTotal64 d (num_mul (map_option of_int (restStopCount64 d)) (Some 45)))
             (Some 20))"
    using a by (simp add: long_branch64 [OF l] tripTotal64_def)
next
  assume a: "15 < d \<and> d \<le> 30"
  then have l: "15 < d" by simp
  show "cityAccess (truckFactors d) = 10" using a by (simp add: truckFactors_def)
  then show "duration64 (calculateTruckDuration64 d h) =
        map_option Math_round
          (num_add (loadedTotal64 d (num_mul (map_option of_int (restStopCount64 d)) (Some 45)))
             (Some 10))"
    using a by (simp add: long_branch64 [OF l] tripTotal64_def)
next
  assume a: "50 \<le> d"
  then have l: "15 < d" by simp
  show "duration64 (calculateTruckDuration64 d h) =
        map_option Math_round
          (if d > 100
           then num_add (loadedTotal64 d (num_mul (map_option of_int (restStopCount64 d)) (Some 45)))
             (Some 15)
           else loadedTotal64 d (num_mul (map_option of_int (restStopCount64 d)) (Some 45)))"
    using a by (simp add: long_branch64 [OF l] tripTotal64_def truckFactors_def)
qed

theorem city_access_delay_by_distance_witness:
  "((30::rat) < 40 \<and> (40::rat) < 50 \<and> cityAccess (truckFactors 40) = 20 \<and>
      duration64 (calculateTruckDuration64 40 []) =
        map_option Math_round
          (num_add (loadedTotal64 40 (num_mul (map_option of_int (restStopCount64 40)) (Some 45)))
             (Some 20))) \<and>
   ((15::rat) < 16 \<and> (16::rat) \<le> 30 \<and> cityAccess (truckFactors 16) = 10 \<and>
      duration64 (calculateTruckDuration64 16 []) =
        map_option Math_round
          (num_add (loadedTotal64 16 (num_mul (map_option of_int (restStopCount64 16)) (Some 45)))
             (Some 10))) \<and>
   ((50::rat) \<le> 50 \<and>
      duration64 (calculateTruckDuration64 50 []) =
        map_option Math_round
          (loadedTotal64 50 (num_mul (map_option of_int (restStopCount64 50)) (Some 45))))"
  using city_access_delay_by_distance [of 40 "[]"] city_access_delay_by_distance [of 16 "[]"]
    city_access_delay_by_distance [of 50 "[]"]
  by simp

text \<open>
  Claim C1 as first stated fails at 16 km: the distance is between 15 and 50 km, the
  delay added is 10 minutes and the program returns 53 minutes, where a delay of 20
  minutes would give 63.
\<close>

theorem city_access_delay_not_always_20:
  "(15::rat) < 16 \<and> (16::rat) < 50 \<and> is_double 16 \<and> cityAccess (truckFactors 16) = 10 \<and>
   duration64 (calculateTruckDuration64 16 []) = Some 53 \<and>
   map_option Math_round
     (num_add (loadedTotal64 16 (num_mul (map_option of_int (restStopCount64 16)) (Some 45)))
        (Some 20)) = Some 63"
proof -
  have "is_double (of_int 16)" by (intro is_double_of_int) simp_all
  then have "is_double 16" by simp
  then show ?thesis
    using estimate64_at_16 [of "[]"] total64_at_16_with_20 by (simp add: truckFactors_def)
qed

subsection \<open>The estimate at 400 km\<close>

text \<open>
  Claim C2. At exactly 400 km the estimator returns a duration of 450 minutes and one
  rest stop: motorway speed 80, 300 driving minutes times 1.2, 45 rest minutes, 30
  loading minutes, 15 weight-station minutes and no city-access delay.
\<close>

theorem estimate_at_400:
  "calculateTruckDuration 400 h = \<lparr>duration = 450, restStops = 1\<rparr> \<and>
   baseSpeed 400 = motorway truckSpeeds \<and> baseSpeed 400 = 80 \<and>
   (400 / baseSpeed 400) * 60 = 300 \<and> drivingMinutes 400 = 360 \<and>
   restStopCount 400 = 1 \<and> loadingUnloading (truckFactors 400) = 30 \<and>
   cityAccessAdded 400 = 0 \<and> weightStationsAdded 400 = 15"
proof -
  have "calculateTruckDuration 400 [] = \<lparr>duration = 450, restStops = 1\<rparr>"
    by code_simp
  then have e: "calculateTruckDuration 400 h = \<lparr>duration = 450, restStops = 1\<rparr>"
    by (simp add: hint_ignored [of 400 h "[]"])
  have p: "baseSpeed 400 = motorway truckSpeeds \<and> baseSpeed 400 = 80 \<and>
   (400 / baseSpeed 400) * 60 = 300 \<and> drivingMinutes 400 = 360 \<and>
   restStopCount 400 = 1 \<and> loadingUnloading (truckFactors 400) = 30 \<and>
   cityAccessAdded 400 = 0 \<and> weightStationsAdded 400 = 15"
    by code_simp
  show ?thesis using e p by (rule conjI)
qed

subsection \<open>Rest stops\<close>

text \<open>
  Claim C3, as amended. For every distance that is a double, strictly above 15 km and at
  most \<open>2 ^ 52\<close> km, the number of rest stops the program computes in binary64 is
  exactly the floor of the driving hours (distance over the speed of the tier: 80 above
  100 km, 60 above 50 km, 50 otherwise) divided by 4.5; the rest time added to the total is
  exactly 45 minutes for each stop; and a part of a 4.5-hour segment adds no stop: the
  stops times 4.5 hours never exceed the driving hours, and one stop more would.
\<close>

theorem rest_stops_floor_of_driving_hours:
  assumes "is_double d" "15 < d" "d \<le> 2 ^ 52"
  shows "baseSpeed d = (if d > 100 then 80 else if d > 50 then 60 else 50) \<and>
    restStops64 (calculateTruckDuration64 d h) = Some \<lfloor>(d / baseSpeed d) / (9 / 2)\<rfloor> \<and>
    duration64 (calculateTruckDuration64 d h) =
      map_option Math_round
        (tripTotal64 d (Some (of_int \<lfloor>(d / baseSpeed d) / (9 / 2)\<rfloor> * 45))) \<and>
    of_int \<lfloor>(d / baseSpeed d) / (9 / 2)\<rfloor> * (9 / 2) \<le> d / baseSpeed d \<and>
    d / baseSpeed d < (of_int \<lfloor>(d / baseSpeed d) / (9 / 2)\<rfloor> + 1) * (9 / 2)"
proof -
  define q where "q = (d / baseSpeed d) / (9 / 2)"
  have dq: "d / baseSpeed d = q * (9 / 2)" by (simp add: q_def)
  have "of_int \<lfloor>q\<rfloor> \<le> q" and "q < of_int \<lfloor>q\<rfloor> + 1" by linarith+
  then have "of_int \<lfloor>q\<rfloor> * (9 / 2) \<le> q * (9 / 2)"
    and "q * (9 / 2) < (of_int \<lfloor>q\<rfloor> + 1) * (9 / 2)" by simp_all
  then have b: "of_int \<lfloor>(d / baseSpeed d) / (9 / 2)\<rfloor> * (9 / 2) \<le> d / baseSpeed d"
    "d / baseSpeed d < (of_int \<lfloor>(d / baseSpeed d) / (9 / 2)\<rfloor> + 1) * (9 / 2)"
    unfolding dq [symmetric] q_def by simp_all
  have s: "baseSpeed d = (if d > 100 then 80 else if d > 50 then 60 else 50)"
    by (simp add: baseSpeed_def truckSpeeds_def)
  have r: "restStops64 (calculateTruckDuration64 d h) = Some \<lfloor>(d / baseSpeed d) / (9 / 2)\<rfloor>"
    by (simp add: long_branch64 [OF assms(2)] restStopCount64_exact [OF assms])
  have t: "duration64 (calculateTruckDuration64 d h) =
      map_option Math_round
        (tripTotal64 d (Some (of_int \<lfloor>(d / baseSpeed d) / (9 / 2)\<rfloor> * 45)))"
    by (simp add: long_branch64 [OF assms(2)] restTime64_exact [OF assms])
  from s r t b show ?thesis by (intro conjI)
qed

theorem rest_stops_floor_of_driving_hours_witness:
  "is_double 400 \<and> (15::rat) < 400 \<and> (400::rat) \<le> 2 ^ 52 \<and> baseSpeed 400 = 80 \<and>
   restStops64 (calculateTruckDuration64 400 []) = Some 1 \<and>
   duration64 (calculateTruckDuration64 400 []) =
     map_option Math_round (tripTotal64 400 (Some 45))"
proof -
  have "is_double (of_int 400)" by (intro is_double_of_int) simp_all
  then have a: "is_double 400" by simp
  have b: "(15::rat) < 400" "(400::rat) \<le> 2 ^ 52" by simp_all
  have s: "baseSpeed 400 = 80" by (simp add: baseSpeed_def truckSpeeds_def)
  show ?thesis
    using a b rest_stops_floor_of_driving_hours [OF a b, of "[]"]
    by (simp add: s floor_rat_numeral)
qed

text \<open>
  Claim C3 as first stated, for every distance above 15 km, fails at \<open>10 ^ 22\<close> km:
  the quotient computed in binary64 is rounded up, the program returns
  27777777777777778688 stops where the floor of the exact quotient is
  27777777777777777777, and the stops times 4.5 hours exceed the driving hours.
\<close>

theorem rest_stops_not_exact_floor_at_1e22:
  "is_double (10 ^ 22) \<and> (15::rat) < 10 ^ 22 \<and>
   restStops64 (calculateTruckDuration64 (10 ^ 22) []) = Some 27777777777777778688 \<and>
   \<lfloor>((10 ^ 22 :: rat) / baseSpeed (10 ^ 22)) / (9 / 2)\<rfloor> = 27777777777777777777 \<and>
   (10 ^ 22 :: rat) / baseSpeed (10 ^ 22) < of_int 27777777777777778688 * (9 / 2)"
proof -
  have p: "pow2 22 = 2 ^ 22" by (simp add: pow2_def)
  have "is_double (of_int 2384185791015625 * pow2 22)"
    by (intro is_double_grid) (simp_all add: p)
  then have a: "is_double (10 ^ 22)" by (simp add: p)
  have s: "baseSpeed 10000000000000000000000 = 80" by (simp add: baseSpeed_def truckSpeeds_def)
  show ?thesis
    using a stops64_at_1e22 [of "[]"] by (simp add: s floor_rat_numeral)
qed

subsection \<open>Boundaries of the tiers\<close>

text \<open>
  Claim C4. The comparisons at 50 and 100 km are strict. At exactly 50 km the speed is
  the primary speed, 50 km/h, and the loading delay is 20 minutes; at exactly 100 km the
  speed is the trunk speed, 60 km/h, and no weight-station delay is added. The two
  estimates are 92 and 150 minutes.
\<close>

theorem tier_boundaries_strict:
  "baseSpeed 50 = primary truckSpeeds \<and> primary truckSpeeds = 50 \<and>
   loadingUnloading (truckFactors 50) = 20 \<and>
   baseSpeed 100 = trunk truckSpeeds \<and> trunk truckSpeeds = 60 \<and>
   weightStationsAdded 100 = 0 \<and>
   calculateTruckDuration 50 h = \<lparr>duration = 92, restStops = 0\<rparr> \<and>
   calculateTruckDuration 100 h = \<lparr>duration = 150, restStops = 0\<rparr>"
proof -
  have "calculateTruckDuration 50 [] = \<lparr>duration = 92, restStops = 0\<rparr>"
    and "calculateTruckDuration 100 [] = \<lparr>duration = 150, restStops = 0\<rparr>"
    by code_simp+
  then have "calculateTruckDuration 50 h = \<lparr>duration = 92, restStops = 0\<rparr>"
    and "calculateTruckDuration 100 h = \<lparr>duration = 150, restStops = 0\<rparr>"
    by (simp_all add: hint_ignored [of _ h "[]"])
  then show ?thesis
    by (simp add: baseSpeed_def truckSpeeds_def truckFactors_def weightStationsAdded_def)
qed

subsection \<open>Short distances\<close>

text \<open>
  Claim C5, as amended. For every distance from 0 to 15 km, 15 included, the estimator
  takes the short branch: no rest stop, and a duration that is \<open>Math.round\<close> of the
  binary64 value of \<open>baseMinutes + 15 + baseMinutes * 0.2\<close> with
  \<open>baseMinutes = (d / 25) * 60\<close>. That value is finite and within \<open>10\<^sup>-\<^sup>1\<^sup>2\<close> of the
  exact \<open>(d / 25) * 60 + 15 + 0.2 * (d / 25) * 60\<close>, so the duration is within one
  minute of the round of the exact value. At 15 km the duration is 58.
\<close>

theorem short_haul_estimate:
  "(0 \<le> d \<and> d \<le> 15 \<longrightarrow>
      restStops64 (calculateTruckDuration64 d h) = Some 0 \<and>
      duration64 (calculateTruckDuration64 d h) =
        map_option Math_round
          (num_add (num_add (baseMinutes64 d) (Some 15))
             (num_mul (baseMinutes64 d) (Some (fl (1 / 5))))) \<and>
      (\<exists>x. num_add (num_add (baseMinutes64 d) (Some 15))
             (num_mul (baseMinutes64 d) (Some (fl (1 / 5)))) = Some x \<and>
           duration64 (calculateTruckDuration64 d h) = Some (Math_round x) \<and>
           \<bar>x - ((d / 25) * 60 + 15 + (1 / 5) * (d / 25) * 60)\<bar> \<le> 1 / 1000000000000 \<and>
           \<bar>Math_round x - Math_round ((d / 25) * 60 + 15 + (1 / 5) * (d / 25) * 60)\<bar> \<le> 1)) \<and>
   duration64 (calculateTruckDuration64 15 h) = Some 58"
proof (intro conjI impI)
  assume a: "0 \<le> d \<and> d \<le> 15"
  then have s: "d \<le> 15" and z: "0 \<le> d" by simp_all
  show "restStops64 (calculateTruckDuration64 d h) = Some 0" by (simp add: short_branch64 [OF s])
  show e: "duration64 (calculateTruckDuration64 d h) =
        map_option Math_round
          (num_add (num_add (baseMinutes64 d) (Some 15))
             (num_mul (baseMinutes64 d) (Some (fl (1 / 5)))))"
    by (simp add: short_branch64 [OF s])
  from short_total_close [OF z s] obtain x
    where x: "num_add (num_add (baseMinutes64 d) (Some 15))
             (num_mul (baseMinutes64 d) (Some (fl (1 / 5)))) = Some x"
      and c: "\<bar>x - ((d / 25) * 60 + 15 + (1 / 5) * (d / 25) * 60)\<bar> \<le> 1 / 1000000000000"
    by blast
  have r: "duration64 (calculateTruckDuration64 d h) = Some (Math_round x)"
    by (simp only: e x option.map)
  have "\<bar>x - ((d / 25) * 60 + 15 + (1 / 5) * (d / 25) * 60)\<bar> \<le> 1" using c by linarith
  then have "\<bar>Math_round x - Math_round ((d / 25) * 60 + 15 + (1 / 5) * (d / 25) * 60)\<bar> \<le> 1"
    by (rule Math_round_close)
  with x r c show "\<exists>x. num_add (num_add (baseMinutes64 d) (Some 15))
             (num_mul (baseMinutes64 d) (Some (fl (1 / 5)))) = Some x \<and>
           duration64 (calculateTruckDuration64 d h) = Some (Math_round x) \<and>
           \<bar>x - ((d / 25) * 60 + 15 + (1 / 5) * (d / 25) * 60)\<bar> \<le> 1 / 1000000000000 \<and>
           \<bar>Math_round x - Math_round ((d / 25) * 60 + 15 + (1 / 5) * (d / 25) * 60)\<bar> \<le> 1"
    by blast
next
  show "duration64 (calculateTruckDuration64 15 h) = Some 58"
    by (simp add: estimate64_at_15)
qed

theorem short_haul_estimate_witness:
  "(0::rat) \<le> 15 \<and> (15::rat) \<le> 15 \<and>
   restStops64 (calculateTruckDuration64 15 []) = Some 0 \<and>
   duration64 (calculateTruckDuration64 15 []) =
     map_option Math_round
       (num_add (num_add (baseMinutes64 15) (Some 15))
          (num_mul (baseMinutes64 15) (Some (fl (1 / 5))))) \<and>
   duration64 (calculateTruckDuration64 15 []) = Some 58"
proof -
  have a: "(0::rat) \<le> 15 \<and> (15::rat) \<le> 15" by simp
  from short_haul_estimate [of 15 "[]"] a show ?thesis by blast
qed

text \<open>
  Claim C5 as first stated, with the round of the exact value, fails at the double just
  below 1.5625 km: the program computes exactly 19.5 and returns 20, where the exact
  value is just below 19.5 and its round is 19.
\<close>

theorem short_haul_not_exact_round:
  "is_double (25 / 16 - 1 / 2 ^ 52) \<and> (0::rat) \<le> 25 / 16 - 1 / 2 ^ 52 \<and>
   (25 / 16 - 1 / 2 ^ 52 :: rat) \<le> 15 \<and>
   duration64 (calculateTruckDuration64 (25 / 16 - 1 / 2 ^ 52) []) = Some 20 \<and>
   Math_round (((25 / 16 - 1 / 2 ^ 52) / 25) * 60 + 15
      + (1 / 5) * ((25 / 16 - 1 / 2 ^ 52) / 25) * 60) = 19"
proof -
  have p: "pow2 (- 52) = 1 / 2 ^ 52" by (simp add: pow2_def)
  have "is_double (of_int 7036874417766399 * pow2 (- 52))"
    by (intro is_double_grid) (simp_all add: p)
  then have a: "is_double (25 / 16 - 1 / 2 ^ 52)" by (simp add: p)
  show ?thesis
    using a estimate64_below_25_16 [of "[]"] exact_round_below_25_16 by simp
qed

subsection \<open>Monotonicity\<close>



subsection \<open>No negative result\<close>



subsection \<open>The route-type hint\<close>

text \<open>
  Claim C8. The result does not depend on the route-type hint: two calls at the same
  distance give the same duration and the same number of rest stops, whatever the two
  hints; with equal hints, this is the same call twice.
\<close>

theorem route_hint_irrelevant: "calculateTruckDuration d h1 = calculateTruckDuration d h2"
  by (simp add: calculateTruckDuration_def)

subsection \<open>The step at 15 km\<close>

text \<open>
  Claim C9. The estimator is not monotone across the boundary of its two branches: the
  duration is 58 minutes at 15 km and 53 minutes at 16 km.
\<close>

theorem not_monotone_across_15:
  "(15::rat) < 16 \<and> duration (calculateTruckDuration 15 h) = 58 \<and>
   duration (calculateTruckDuration 16 h) = 53 \<and>
   duration (calculateTruckDuration 16 h) < duration (calculateTruckDuration 15 h)"
proof -
  have "duration (calculateTruckDuration 15 []) = 58"
    and "duration (calculateTruckDuration 16 []) = 53"
    by code_simp+
  then have "duration (calculateTruckDuration 15 h) = 58"
    and "duration (calculateTruckDuration 16 h) = 53"
    by (simp_all add: hint_ignored [of _ h "[]"])
  then show ?thesis by simp
qed

subsection \<open>The first rest stop\<close>



end
